theory Spec2Isabelle
  imports Main
begin

section \<open>BigN: fixed-point decimals on arbitrary-precision integers\<close>

text \<open>
  A shallow embedding of the class \<open>N\<close> of the BigN library (the most recent revision
  of \<open>bign.ts\<close>, the one with the rounding subsystem). JavaScript \<open>bigint\<close> values are
  \<^typ>\<open>int\<close>; the \<open>number\<close> fields \<open>decimals\<close> and \<open>precision\<close> are \<^typ>\<open>int\<close>
  as well (integral numbers only). Exceptions are values of type \<open>error\<close>, objects
  live in an explicit store, and the process-wide static settings are a record that every
  operation reading them receives. The operands of an operation are taken to exist, so
  the arithmetic on them is not bounded; where an argument of the caller decides on the
  size of a bigint (\<open>toDecimal\<close>, \<open>toString\<close>), the bound of the engine is a parameter.
\<close>

subsection \<open>Primitive bigint operations\<close>

datatype error =
    RangeError
  | SyntaxError
  | Thrown string

definition bindE :: "error + 'a \<Rightarrow> ('a \<Rightarrow> error + 'b) \<Rightarrow> error + 'b" where
  "bindE m f = (case m of Inl e \<Rightarrow> Inl e | Inr x \<Rightarrow> f x)"

text \<open>\<open>a / b\<close> on bigints truncates toward zero and throws a RangeError for \<open>b = 0n\<close>.\<close>

definition big_div :: "int \<Rightarrow> int \<Rightarrow> error + int" where
  "big_div a b = (if b = 0 then Inl RangeError else Inr (sgn a * sgn b * (\<bar>a\<bar> div \<bar>b\<bar>)))"

text \<open>\<open>a % b\<close> takes the sign of the dividend and throws a RangeError for \<open>b = 0n\<close>.\<close>

definition big_rem :: "int \<Rightarrow> int \<Rightarrow> error + int" where
  "big_rem a b = (if b = 0 then Inl RangeError else Inr (sgn a * (\<bar>a\<bar> mod \<bar>b\<bar>)))"

text \<open>\<open>a ** b\<close> throws a RangeError for a negative exponent.\<close>

definition big_pow :: "int \<Rightarrow> int \<Rightarrow> error + int" where
  "big_pow a b = (if b < 0 then Inl RangeError else Inr (a ^ nat b))"

subsection \<open>Global settings and the instance record\<close>

datatype ROUNDING_MODES = DOWN | UP | TOWARD_ZERO | HALF_AWAY_FROM_ZERO | CUSTOM

text \<open>
  The process-wide state the operations read: the three static settings of the class and,
  of the engine that runs it, the largest exponent \<open>e\<close> for which it computes
  \<open>10n ** e\<close>. An engine refuses a bigint beyond a size of its own choice with a
  RangeError; that size is not in the source, so it is a parameter here.
\<close>

record config =
  DEFAULT_PRECISION :: int
  ROUNDING_MODE :: ROUNDING_MODES
  ROUNDING_CUSTOM_FUNCTION :: "int \<Rightarrow> int \<Rightarrow> int"
  engine_max_exponent :: int

text \<open>
  The settings the class starts with, on an engine whose bigints have at most \<open>2^30\<close>
  bits, as those of V8, the engine of Node.js: \<open>10^323228496\<close> is the largest power
  of ten below \<open>2^(2^30)\<close>. The theorems about all settings hold for every bound.
\<close>

definition initial_config :: config where
  "initial_config =
     \<lparr> DEFAULT_PRECISION = 80, ROUNDING_MODE = HALF_AWAY_FROM_ZERO,
       ROUNDING_CUSTOM_FUNCTION = (\<lambda>v f. 0), engine_max_exponent = 323228496 \<rparr>"

text \<open>The field \<open>value\<close> of the class is \<open>val\<close> here.\<close>

record N =
  decimals :: int
  decimalsFactor :: int
  val :: int
  precision :: int
  factor :: int

subsection \<open>Rounding\<close>

fun rounders :: "config \<Rightarrow> ROUNDING_MODES \<Rightarrow> int \<Rightarrow> int \<Rightarrow> error + int" where
  "rounders cfg DOWN v f =
     (let sign = (if v < 0 then - 1 else 1) in
      bindE (big_rem (sign * v) f) (\<lambda>r.
        Inr (if r = 0 then 0 else if sign < 0 then - 1 else 0)))"
| "rounders cfg UP v f =
     (let sign = (if v < 0 then - 1 else 1) in
      bindE (big_rem (sign * v) f) (\<lambda>r.
        Inr (if r = 0 then 0 else if sign < 0 then 0 else 1)))"
| "rounders cfg TOWARD_ZERO v f = Inr 0"
| "rounders cfg HALF_AWAY_FROM_ZERO v f =
     (let sign = (if v < 0 then - 1 else 1) in
      bindE (big_rem (sign * v) f) (\<lambda>r.
        Inr (if r * 2 \<ge> f then sign else 0)))"
| "rounders cfg CUSTOM v f = Inr (ROUNDING_CUSTOM_FUNCTION cfg v f)"

definition rounder :: "config \<Rightarrow> int \<Rightarrow> int \<Rightarrow> error + int" where
  "rounder cfg v f = rounders cfg (ROUNDING_MODE cfg) v f"

subsection \<open>Strings\<close>

text \<open>
  Strings are lists of characters (ASCII; the white space outside ASCII that \<open>BigInt\<close>
  also drops around a literal is not represented). The functions below are the string methods
  the class calls: \<open>indexOf\<close>, \<open>split('.').join('')\<close>, \<open>padStart\<close>, \<open>padEnd\<close> on
  the empty string, \<open>slice\<close>, the conversion \<open>BigInt(string)\<close> and the method
  \<open>toString\<close> of a bigint.
\<close>

fun indexOf :: "string \<Rightarrow> char \<Rightarrow> int" where
  "indexOf [] c = - 1"
| "indexOf (x # xs) c =
     (if x = c then 0 else (let i = indexOf xs c in if i < 0 then - 1 else i + 1))"

definition split_join :: "string \<Rightarrow> char \<Rightarrow> string" where
  "split_join s c = filter (\<lambda>x. x \<noteq> c) s"

definition padStart :: "string \<Rightarrow> int \<Rightarrow> char \<Rightarrow> string" where
  "padStart s n c =
     (if n \<le> int (length s) then s else replicate (nat (n - int (length s))) c @ s)"

definition padEnd_empty :: "int \<Rightarrow> char \<Rightarrow> string" where
  "padEnd_empty n c = replicate (nat n) c"

definition slice :: "string \<Rightarrow> int \<Rightarrow> int option \<Rightarrow> string" where
  "slice s start fin =
     (let len = int (length s);
          from = (if start < 0 then max (len + start) 0 else min start len);
          to = (case fin of None \<Rightarrow> len
                | Some e \<Rightarrow> if e < 0 then max (len + e) 0 else min e len)
      in take (nat (to - from)) (drop (nat from) s))"

definition is_white :: "char \<Rightarrow> bool" where
  "is_white c = (of_char c \<in> {9, 10, 11, 12, 13, 32::nat})"

definition trim :: "string \<Rightarrow> string" where
  "trim s = rev (dropWhile is_white (rev (dropWhile is_white s)))"

definition digit_val :: "char \<Rightarrow> nat option" where
  "digit_val c =
     (let n = (of_char c :: nat) in
      if 48 \<le> n \<and> n \<le> 57 then Some (n - 48)
      else if 97 \<le> n \<and> n \<le> 102 then Some (n - 87)
      else if 65 \<le> n \<and> n \<le> 70 then Some (n - 55)
      else None)"

fun parse_digits :: "nat \<Rightarrow> string \<Rightarrow> nat \<Rightarrow> nat option" where
  "parse_digits b [] acc = Some acc"
| "parse_digits b (c # cs) acc =
     (case digit_val c of
        None \<Rightarrow> None
      | Some d \<Rightarrow> if d < b then parse_digits b cs (acc * b + d) else None)"

definition parse_nonempty :: "nat \<Rightarrow> string \<Rightarrow> nat option" where
  "parse_nonempty b cs = (if cs = [] then None else parse_digits b cs 0)"

text \<open>
  StringToBigInt: surrounding white space is dropped, the empty string is \<open>0n\<close>, a decimal
  literal may carry a sign, a literal with the prefix \<open>0x\<close>, \<open>0o\<close> or \<open>0b\<close> may not.
\<close>

definition string_to_bigint :: "string \<Rightarrow> int option" where
  "string_to_bigint s =
     (let t = trim s in
      if t = [] then Some 0
      else if hd t = CHR ''+'' then map_option int (parse_nonempty 10 (tl t))
      else if hd t = CHR ''-'' then map_option (\<lambda>n. - int n) (parse_nonempty 10 (tl t))
      else if take 2 t = ''0x'' \<or> take 2 t = ''0X''
        then map_option int (parse_nonempty 16 (drop 2 t))
      else if take 2 t = ''0o'' \<or> take 2 t = ''0O''
        then map_option int (parse_nonempty 8 (drop 2 t))
      else if take 2 t = ''0b'' \<or> take 2 t = ''0B''
        then map_option int (parse_nonempty 2 (drop 2 t))
      else map_option int (parse_nonempty 10 t))"

fun digits :: "nat \<Rightarrow> string" where
  "digits n =
     (if n < 10 then [char_of (48 + n)] else digits (n div 10) @ [char_of (48 + n mod 10)])"

definition bigint_toString :: "int \<Rightarrow> string" where
  "bigint_toString i = (if i < 0 then CHR ''-'' # digits (nat (- i)) else digits (nat i))"

subsection \<open>Construction\<close>

text \<open>
  What the constructor accepts: a string, a number or a bigint, or another instance,
  which is a reference into the store.
\<close>

datatype primitive = Str string | Num int | Big int

type_synonym addr = nat

datatype NLike = Val primitive | Ref addr

type_synonym heap = "N list"

definition alloc :: "heap \<Rightarrow> N \<Rightarrow> addr \<times> heap" where
  "alloc h obj = (length h, h @ [obj])"

fun BigInt :: "primitive \<Rightarrow> error + int" where
  "BigInt (Str s) = (case string_to_bigint s of None \<Rightarrow> Inl SyntaxError | Some i \<Rightarrow> Inr i)"
| "BigInt (Num i) = Inr i"
| "BigInt (Big i) = Inr i"

text \<open>
  The body of the constructor for a value that is not an instance. An argument left out
  is \<open>None\<close> and takes its default. \<open>assert\<close> is \<open>console.assert\<close>, which prints its
  message and returns, so it leaves no trace here; a negative number of decimals stops the
  construction in \<open>10n ** BigInt(decimals)\<close>.
\<close>

definition construct :: "config \<Rightarrow> primitive \<Rightarrow> int option \<Rightarrow> int option \<Rightarrow> bool \<Rightarrow> error + N" where
  "construct cfg v dec prec isPrecise =
     (let d0 = (case dec of None \<Rightarrow> 0 | Some d \<Rightarrow> d);
          p0 = (case prec of None \<Rightarrow> DEFAULT_PRECISION cfg | Some p \<Rightarrow> p);
          (v1, d1, p1) =
            (case v of
               Str s \<Rightarrow>
                 if CHR ''.'' \<in> set s
                 then (let d = int (length s) - 1 - indexOf s CHR ''.'' in
                       (Str (split_join s CHR ''.''), d, if p0 = 0 then d else p0))
                 else (v, d0, p0)
             | _ \<Rightarrow> (v, d0, p0))
      in bindE (big_pow 10 d1) (\<lambda>df.
         let p2 = (if p1 < d1 then d1 else p1) in
         bindE (big_pow 10 p2) (\<lambda>f.
         bindE (BigInt v1) (\<lambda>b.
         bindE (if isPrecise then Inr b else big_div (b * f) df) (\<lambda>x.
         Inr \<lparr> decimals = d1, decimalsFactor = df, val = x, precision = p2, factor = f \<rparr>)))))"

text \<open>\<open>new N(...)\<close>: an instance is copied field by field into a new object.\<close>

definition new_N :: "config \<Rightarrow> heap \<Rightarrow> NLike \<Rightarrow> int option \<Rightarrow> int option \<Rightarrow> bool \<Rightarrow> error + (addr \<times> heap)" where
  "new_N cfg h v dec prec isPrecise =
     (case v of
        Ref a \<Rightarrow> Inr (alloc h (h ! a))
      | Val x \<Rightarrow> bindE (construct cfg x dec prec isPrecise) (\<lambda>obj. Inr (alloc h obj)))"

definition clone :: "heap \<Rightarrow> addr \<Rightarrow> addr \<times> heap" where
  "clone h this = alloc h (h ! this)"

subsection \<open>Conversions\<close>

text \<open>
  These methods only read the receiver, which they take as a record. The argument of
  \<open>toDecimal\<close> and \<open>toString\<close> is a JavaScript number: an integer, or a number that is
  not one (a fraction, \<open>NaN\<close>, an infinity).
\<close>

datatype number = Integer int | NonInteger

text \<open>
  \<open>10n ** BigInt(e)\<close> for an exponent that depends on an argument of the caller: a
  RangeError when \<open>e\<close> is negative, and when the power is beyond the bound of the engine.
\<close>

definition engine_pow10 :: "config \<Rightarrow> int \<Rightarrow> error + int" where
  "engine_pow10 cfg e = (if engine_max_exponent cfg < e then Inl RangeError else big_pow 10 e)"

definition valueOf :: "config \<Rightarrow> N \<Rightarrow> error + int" where
  "valueOf cfg this =
     bindE (big_div (val this) (factor this)) (\<lambda>q.
     bindE (rounder cfg (val this) (factor this)) (\<lambda>c. Inr (q + c)))"


text \<open>
  With an argument that is not an integer, the difference of \<open>this.precision\<close> and the
  argument is not an integer either, and on both sides of the comparison the first step is
  \<open>BigInt\<close> of that difference, which throws a RangeError.
\<close>

definition toDecimal :: "config \<Rightarrow> N \<Rightarrow> number option \<Rightarrow> error + int" where
  "toDecimal cfg this prec =
     (case (case prec of None \<Rightarrow> Integer (decimals this) | Some n \<Rightarrow> n) of
        NonInteger \<Rightarrow> Inl RangeError
      | Integer p \<Rightarrow>
          if p < precision this then
            bindE (engine_pow10 cfg (precision this - p)) (\<lambda>newDecimalsFactor.
            bindE (big_div (val this) newDecimalsFactor) (\<lambda>q.
            bindE (rounder cfg (val this) newDecimalsFactor) (\<lambda>c. Inr (q + c))))
          else bindE (engine_pow10 cfg (p - precision this)) (\<lambda>m. Inr (val this * m)))"

text \<open>
  \<open>toString\<close> calls \<open>toDecimal\<close> first, so it does not get to the string operations
  with an argument that is not an integer.
\<close>

definition toString :: "config \<Rightarrow> N \<Rightarrow> number option \<Rightarrow> error + string" where
  "toString cfg this prec =
     (let n = (case prec of None \<Rightarrow> Integer (decimals this) | Some n \<Rightarrow> n) in
      bindE (toDecimal cfg this (Some n)) (\<lambda>d.
        case n of
          NonInteger \<Rightarrow> Inl RangeError
        | Integer p \<Rightarrow>
            let decimal = padStart (bigint_toString d) p CHR ''0'' in
            Inr (if p > 0
                 then slice decimal 0 (Some (- p)) @ ''.'' @ slice decimal (- p) None
                 else decimal @ padEnd_empty (- p) CHR ''0'')))"

subsection \<open>Field writes and rebasing\<close>

text \<open>An assignment to a field of the object at an address.\<close>

definition set_val :: "heap \<Rightarrow> addr \<Rightarrow> int \<Rightarrow> heap" where
  "set_val h a v = h[a := (h ! a)\<lparr>val := v\<rparr>]"

definition set_precision :: "heap \<Rightarrow> addr \<Rightarrow> int \<Rightarrow> heap" where
  "set_precision h a p = h[a := (h ! a)\<lparr>precision := p\<rparr>]"

definition set_factor :: "heap \<Rightarrow> addr \<Rightarrow> int \<Rightarrow> heap" where
  "set_factor h a f = h[a := (h ! a)\<lparr>factor := f\<rparr>]"

definition nfy :: "config \<Rightarrow> heap \<Rightarrow> addr \<Rightarrow> NLike \<Rightarrow> error + (addr \<times> heap)" where
  "nfy cfg h this instance =
     (case instance of
        Val x \<Rightarrow> new_N cfg h (Val x) (Some 0) (Some (precision (h ! this))) False
      | Ref a \<Rightarrow> Inr (clone h a))"

text \<open>
  \<open>rebase\<close> writes to the receiver or to the object \<open>nfy\<close> returned, whichever has the
  lower precision, one field after the other.
\<close>

definition rebase :: "config \<Rightarrow> heap \<Rightarrow> addr \<Rightarrow> NLike \<Rightarrow> error + (addr \<times> heap)" where
  "rebase cfg h this instance0 =
     bindE (nfy cfg h this instance0) (\<lambda>(instance, h1).
       if precision (h1 ! instance) < precision (h1 ! this) then
         bindE (big_pow 10 (precision (h1 ! this) - precision (h1 ! instance))) (\<lambda>m.
           let h2 = set_val h1 instance (val (h1 ! instance) * m);
               h3 = set_precision h2 instance (precision (h2 ! this));
               h4 = set_factor h3 instance (factor (h3 ! this))
           in Inr (instance, h4))
       else if precision (h1 ! instance) > precision (h1 ! this) then
         bindE (big_pow 10 (precision (h1 ! instance) - precision (h1 ! this))) (\<lambda>m.
           let h2 = set_val h1 this (val (h1 ! this) * m);
               h3 = set_precision h2 this (precision (h2 ! instance));
               h4 = set_factor h3 this (factor (h3 ! instance))
           in Inr (instance, h4))
       else Inr (instance, h1))"

subsection \<open>Arithmetic\<close>

definition plus_N :: "config \<Rightarrow> heap \<Rightarrow> addr \<Rightarrow> NLike \<Rightarrow> error + (addr \<times> heap)" where
  "plus_N cfg h this Addend =
     (let (Augend, h1) = clone h this in
      bindE (rebase cfg h1 Augend Addend) (\<lambda>(r, h2).
        let addend = val (h2 ! r); augend = val (h2 ! Augend) in
        Inr (Augend, set_val h2 Augend (augend + addend))))"

definition minus_N :: "config \<Rightarrow> heap \<Rightarrow> addr \<Rightarrow> NLike \<Rightarrow> error + (addr \<times> heap)" where
  "minus_N cfg h this Subtrahend =
     (let (Minuend, h1) = clone h this in
      bindE (rebase cfg h1 Minuend Subtrahend) (\<lambda>(r, h2).
        let subtrahend = val (h2 ! r); minuend = val (h2 ! Minuend) in
        Inr (Minuend, set_val h2 Minuend (minuend - subtrahend))))"

text \<open>\<open>mul\<close> and \<open>div\<close> read \<open>this.factor\<close>, the factor of the receiver itself.\<close>

definition mul :: "config \<Rightarrow> heap \<Rightarrow> addr \<Rightarrow> NLike \<Rightarrow> error + (addr \<times> heap)" where
  "mul cfg h this Factor =
     (let (Multiplier, h1) = clone h this in
      bindE (rebase cfg h1 Multiplier Factor) (\<lambda>(r, h2).
        let multiplicand = val (h2 ! r); multiplier = val (h2 ! Multiplier) in
        bindE (big_div (multiplier * multiplicand) (factor (h2 ! this))) (\<lambda>q.
        Inr (Multiplier, set_val h2 Multiplier q))))"

definition multipliedBy :: "config \<Rightarrow> heap \<Rightarrow> addr \<Rightarrow> NLike \<Rightarrow> error + (addr \<times> heap)" where
  "multipliedBy cfg h this Factor = mul cfg h this Factor"

definition div_N :: "config \<Rightarrow> heap \<Rightarrow> addr \<Rightarrow> NLike \<Rightarrow> error + (addr \<times> heap)" where
  "div_N cfg h this Divisor =
     (let (Dividend, h1) = clone h this in
      bindE (rebase cfg h1 Dividend Divisor) (\<lambda>(r, h2).
        let divisor = val (h2 ! r); dividend = val (h2 ! Dividend) in
        bindE (big_div (factor (h2 ! this) * dividend) divisor) (\<lambda>q.
        Inr (Dividend, set_val h2 Dividend q))))"

definition sq :: "config \<Rightarrow> heap \<Rightarrow> addr \<Rightarrow> error + (addr \<times> heap)" where
  "sq cfg h this = mul cfg h this (Ref this)"

text \<open>
  The loop of \<open>sqrt\<close>. Its value is \<open>None\<close> where the loop does not end; that it ends
  on every radicand the method passes to it is proved below.
\<close>

partial_function (option) sqrt_loop :: "int \<Rightarrow> int \<Rightarrow> int \<Rightarrow> (error + int) option" where
  "sqrt_loop x y z =
     (if z < y then
        (case big_div x z of
           Inl e \<Rightarrow> Some (Inl e)
         | Inr q \<Rightarrow>
             (case big_div (q + z) 2 of
                Inl e \<Rightarrow> Some (Inl e)
              | Inr z' \<Rightarrow> sqrt_loop x z z'))
      else Some (Inr y))"

declare sqrt_loop.simps [code]

definition sqrt :: "heap \<Rightarrow> addr \<Rightarrow> (error + (addr \<times> heap)) option" where
  "sqrt h this =
     (let (Radicand, h1) = clone h this;
          x = val (h1 ! Radicand) * factor (h1 ! Radicand)
      in if x < 0 then Some (Inl (Thrown ''square root of negative numbers is not supported''))
         else if x < 2 then Some (Inr (Radicand, h1))
         else (case big_div x 2 of
                 Inl e \<Rightarrow> Some (Inl e)
               | Inr q \<Rightarrow>
                   (case sqrt_loop x x (q + 1) of
                      None \<Rightarrow> None
                    | Some (Inl e) \<Rightarrow> Some (Inl e)
                    | Some (Inr y) \<Rightarrow> Some (Inr (Radicand, set_val h1 Radicand y)))))"

subsection \<open>Comparisons\<close>

definition compare_N :: "(int \<Rightarrow> int \<Rightarrow> bool) \<Rightarrow> config \<Rightarrow> heap \<Rightarrow> addr \<Rightarrow> NLike \<Rightarrow> error + (bool \<times> heap)" where
  "compare_N rel cfg h this Comparand =
     (let (Compared, h1) = clone h this in
      bindE (rebase cfg h1 Compared Comparand) (\<lambda>(r, h2).
        let comparand = val (h2 ! r); compared = val (h2 ! Compared) in
        Inr (rel compared comparand, h2)))"

definition eq_N :: "config \<Rightarrow> heap \<Rightarrow> addr \<Rightarrow> NLike \<Rightarrow> error + (bool \<times> heap)" where
  "eq_N = compare_N (\<lambda>compared comparand. compared = comparand)"

definition lt :: "config \<Rightarrow> heap \<Rightarrow> addr \<Rightarrow> NLike \<Rightarrow> error + (bool \<times> heap)" where
  "lt = compare_N (\<lambda>compared comparand. compared < comparand)"

definition lte :: "config \<Rightarrow> heap \<Rightarrow> addr \<Rightarrow> NLike \<Rightarrow> error + (bool \<times> heap)" where
  "lte = compare_N (\<lambda>compared comparand. compared \<le> comparand)"

definition gt :: "config \<Rightarrow> heap \<Rightarrow> addr \<Rightarrow> NLike \<Rightarrow> error + (bool \<times> heap)" where
  "gt = compare_N (\<lambda>compared comparand. compared > comparand)"

definition gte :: "config \<Rightarrow> heap \<Rightarrow> addr \<Rightarrow> NLike \<Rightarrow> error + (bool \<times> heap)" where
  "gte = compare_N (\<lambda>compared comparand. compared \<ge> comparand)"

subsection \<open>Well-formed instances and the effect of rebasing\<close>

text \<open>
  The representation invariant of an instance; \<open>10^precision\<close> is \<open>10 ^ nat precision\<close>,
  and the number of decimals is not negative.
\<close>

definition wellformed :: "N \<Rightarrow> bool" where
  "wellformed x \<longleftrightarrow>
     factor x = 10 ^ nat (precision x) \<and> decimalsFactor x = 10 ^ nat (decimals x)
     \<and> decimals x \<le> precision x \<and> 0 \<le> decimals x"

text \<open>
  What \<open>rebase\<close> leaves in the receiver and in the object it returns, as a function of
  the two records; \<open>operand\<close> is the record \<open>nfy\<close> allocates. Both only serve to state
  the lemmas that summarise the store-level operations.
\<close>

definition rebased :: "N \<Rightarrow> N \<Rightarrow> N \<times> N" where
  "rebased t i =
     (if precision i < precision t then
        (t, i\<lparr>val := val i * 10 ^ nat (precision t - precision i),
               precision := precision t, factor := factor t\<rparr>)
      else if precision t < precision i then
        (t\<lparr>val := val t * 10 ^ nat (precision i - precision t),
           precision := precision i, factor := factor i\<rparr>, i)
      else (t, i))"

definition operand :: "config \<Rightarrow> heap \<Rightarrow> int \<Rightarrow> NLike \<Rightarrow> error + N" where
  "operand cfg h p instance =
     (case instance of
        Val x \<Rightarrow> construct cfg x (Some 0) (Some p) False
      | Ref a \<Rightarrow> Inr (h ! a))"

text \<open>An argument that is a reference points into the store.\<close>

definition valid :: "heap \<Rightarrow> NLike \<Rightarrow> bool" where
  "valid h instance = (case instance of Val x \<Rightarrow> True | Ref a \<Rightarrow> a < length h)"

subsection \<open>Reachable stores\<close>

text \<open>
  The stores a program can build with the public operations, from the empty store, under
  any settings: construction, \<open>clone\<close>, the arithmetic operations and the comparisons
  that return normally. The conversions (\<open>valueOf\<close>, \<open>toPrecise\<close>, \<open>toDecimal\<close>,
  \<open>toString\<close>) read one instance and write nothing.
\<close>

inductive reachable :: "heap \<Rightarrow> bool" where
  start: "reachable []"
| construction:
    "reachable h \<Longrightarrow> valid h v \<Longrightarrow> new_N cfg h v dec prec isPrecise = Inr (r, h')
     \<Longrightarrow> reachable h'"
| cloning:
    "reachable h \<Longrightarrow> this < length h \<Longrightarrow> clone h this = (r, h') \<Longrightarrow> reachable h'"
| arithmetic:
    "reachable h \<Longrightarrow> this < length h \<Longrightarrow> valid h inst
     \<Longrightarrow> op = plus_N \<or> op = minus_N \<or> op = mul \<or> op = multipliedBy \<or> op = div_N
     \<Longrightarrow> op cfg h this inst = Inr (r, h') \<Longrightarrow> reachable h'"
| square:
    "reachable h \<Longrightarrow> this < length h \<Longrightarrow> sq cfg h this = Inr (r, h') \<Longrightarrow> reachable h'"
| square_root:
    "reachable h \<Longrightarrow> this < length h \<Longrightarrow> sqrt h this = Some (Inr (r, h'))
     \<Longrightarrow> reachable h'"
| comparison:
    "reachable h \<Longrightarrow> this < length h \<Longrightarrow> valid h inst
     \<Longrightarrow> cmp = eq_N \<or> cmp = lt \<or> cmp = lte \<or> cmp = gt \<or> cmp = gte
     \<Longrightarrow> cmp cfg h this inst = Inr (res, h') \<Longrightarrow> reachable h'"

subsection \<open>Facts about the primitives\<close>

lemma bindE_simps [simp]:
  "bindE (Inl e) f = Inl e"
  "bindE (Inr x) f = f x"
  by (simp_all add: bindE_def)

lemma big_pow_nonneg [simp]: "0 \<le> b \<Longrightarrow> big_pow a b = Inr (a ^ nat b)"
  by (simp add: big_pow_def)

lemma big_pow_neg [simp]: "b < 0 \<Longrightarrow> big_pow a b = Inl RangeError"
  by (simp add: big_pow_def)


lemma big_div_pos_pos: "0 \<le> a \<Longrightarrow> 0 < b \<Longrightarrow> big_div a b = Inr (a div b)"
  by (cases "a = 0") (simp_all add: big_div_def)

lemma big_rem_abs:
  "f \<noteq> 0 \<Longrightarrow> big_rem ((if v < 0 then - 1 else 1) * v) f = Inr (\<bar>v\<bar> mod \<bar>f\<bar>)"
  by (cases "\<bar>v\<bar> = 0") (auto simp add: big_rem_def abs_if)

lemma rounders_HALF_AWAY_FROM_ZERO:
  assumes "0 < f"
  shows "rounders cfg HALF_AWAY_FROM_ZERO v f =
           Inr (if f \<le> 2 * (\<bar>v\<bar> mod f) then (if v < 0 then - 1 else 1) else 0)"
proof -
  have "big_rem ((if v < 0 then - 1 else 1) * v) f = Inr (\<bar>v\<bar> mod f)"
    using big_rem_abs [of f v] assms by simp
  then show ?thesis
    by (simp add: Let_def mult.commute del: mult_minus1 mult_minus1_right)
qed

subsection \<open>The operations in terms of the records\<close>

lemma nfy_eq:
  "nfy cfg h this inst =
     bindE (operand cfg h (precision (h ! this)) inst) (\<lambda>x. Inr (length h, h @ [x]))"
  by (cases inst) (simp_all add: nfy_def operand_def new_N_def clone_def alloc_def)

lemma rebase_eq:
  assumes "this < length h"
  shows "rebase cfg h this inst =
     bindE (operand cfg h (precision (h ! this)) inst) (\<lambda>x.
       Inr (length h, h[this := fst (rebased (h ! this) x)] @ [snd (rebased (h ! this) x)]))"
proof (cases "operand cfg h (precision (h ! this)) inst")
  case (Inl e)
  then show ?thesis by (simp add: rebase_def nfy_eq)
next
  case (Inr x)
  show ?thesis
    using assms
    by (simp add: rebase_def nfy_eq Inr rebased_def set_val_def set_precision_def
        set_factor_def nth_append Let_def list_update_append)
qed

lemma operand_clone:
  assumes "this < length h" and "valid h inst"
  shows "operand cfg (h @ [x]) p inst = operand cfg h p inst"
  using assms by (cases inst) (simp_all add: operand_def valid_def nth_append)


lemma rebase_clone:
  assumes "this < length h" and "valid h inst"
  shows "rebase cfg (h @ [h ! this]) (length h) inst =
     bindE (operand cfg h (precision (h ! this)) inst) (\<lambda>x.
       Inr (Suc (length h),
            h @ [fst (rebased (h ! this) x), snd (rebased (h ! this) x)]))"
proof -
  have "length h < length (h @ [h ! this])" by simp
  from rebase_eq [OF this, of cfg inst] show ?thesis
    using operand_clone [OF assms, of cfg "h ! this" "precision (h ! this)"]
    by (simp add: list_update_append)
qed

lemma plus_N_eq:
  assumes "this < length h" and "valid h inst"
  shows "plus_N cfg h this inst =
     bindE (operand cfg h (precision (h ! this)) inst) (\<lambda>x.
       case rebased (h ! this) x of (A, B) \<Rightarrow>
         Inr (length h, h @ [A\<lparr>val := val A + val B\<rparr>, B]))"
  by (cases "operand cfg h (precision (h ! this)) inst")
    (simp_all add: plus_N_def clone_def alloc_def rebase_clone [OF assms] set_val_def
      nth_append list_update_append split: prod.splits)

lemma minus_N_eq:
  assumes "this < length h" and "valid h inst"
  shows "minus_N cfg h this inst =
     bindE (operand cfg h (precision (h ! this)) inst) (\<lambda>x.
       case rebased (h ! this) x of (A, B) \<Rightarrow>
         Inr (length h, h @ [A\<lparr>val := val A - val B\<rparr>, B]))"
  by (cases "operand cfg h (precision (h ! this)) inst")
    (simp_all add: minus_N_def clone_def alloc_def rebase_clone [OF assms] set_val_def
      nth_append list_update_append split: prod.splits)

lemma mul_eq:
  assumes "this < length h" and "valid h inst"
  shows "mul cfg h this inst =
     bindE (operand cfg h (precision (h ! this)) inst) (\<lambda>x.
       case rebased (h ! this) x of (A, B) \<Rightarrow>
         bindE (big_div (val A * val B) (factor (h ! this))) (\<lambda>q.
           Inr (length h, h @ [A\<lparr>val := q\<rparr>, B])))"
proof (cases "operand cfg h (precision (h ! this)) inst")
  case (Inl e)
  then show ?thesis
    by (simp add: mul_def clone_def alloc_def rebase_clone [OF assms])
next
  case (Inr x)
  obtain A B where AB: "rebased (h ! this) x = (A, B)" by (cases "rebased (h ! this) x")
  show ?thesis
    using assms(1)
    by (cases "big_div (val A * val B) (factor (h ! this))")
      (simp_all add: mul_def clone_def alloc_def rebase_clone [OF assms] Inr AB set_val_def
        nth_append list_update_append)
qed

lemma div_N_eq:
  assumes "this < length h" and "valid h inst"
  shows "div_N cfg h this inst =
     bindE (operand cfg h (precision (h ! this)) inst) (\<lambda>x.
       case rebased (h ! this) x of (A, B) \<Rightarrow>
         bindE (big_div (factor (h ! this) * val A) (val B)) (\<lambda>q.
           Inr (length h, h @ [A\<lparr>val := q\<rparr>, B])))"
proof (cases "operand cfg h (precision (h ! this)) inst")
  case (Inl e)
  then show ?thesis
    by (simp add: div_N_def clone_def alloc_def rebase_clone [OF assms])
next
  case (Inr x)
  obtain A B where AB: "rebased (h ! this) x = (A, B)" by (cases "rebased (h ! this) x")
  show ?thesis
    using assms(1)
    by (cases "big_div (factor (h ! this) * val A) (val B)")
      (simp_all add: div_N_def clone_def alloc_def rebase_clone [OF assms] Inr AB set_val_def
        nth_append list_update_append)
qed

lemma compare_N_eq:
  assumes "this < length h" and "valid h inst"
  shows "compare_N rel cfg h this inst =
     bindE (operand cfg h (precision (h ! this)) inst) (\<lambda>x.
       case rebased (h ! this) x of (A, B) \<Rightarrow> Inr (rel (val A) (val B), h @ [A, B]))"
  by (cases "operand cfg h (precision (h ! this)) inst")
    (simp_all add: compare_N_def clone_def alloc_def rebase_clone [OF assms]
      nth_append split: prod.splits)

subsection \<open>What the operations leave in the store\<close>

lemma rebased_fst:
  "fst (rebased t i) =
     t\<lparr>val := val t * 10 ^ nat (max (precision t) (precision i) - precision t),
       precision := max (precision t) (precision i),
       factor := (if precision t < precision i then factor i else factor t)\<rparr>"
  by (simp add: rebased_def max_def)

lemma rebased_snd:
  "snd (rebased t i) =
     i\<lparr>val := val i * 10 ^ nat (max (precision t) (precision i) - precision i),
       precision := max (precision t) (precision i),
       factor := (if precision i < precision t then factor t else factor i)\<rparr>"
  by (simp add: rebased_def max_def)

lemma rebased_val_fst:
  "val (fst (rebased t i)) = val t * 10 ^ nat (max (precision t) (precision i) - precision t)"
  by (simp add: rebased_fst)


lemma operand_Ref [simp]: "operand cfg h p (Ref b) = Inr (h ! b)"
  by (simp add: operand_def)

lemma valid_Ref [simp]: "valid h (Ref b) \<longleftrightarrow> b < length h"
  by (simp add: valid_def)

lemma valid_append: "valid h inst \<Longrightarrow> valid (h @ xs) inst"
  by (cases inst) (simp_all add: valid_def)

lemma arith_result:
  assumes "this < length h" and "valid h inst"
    and "op = plus_N \<or> op = minus_N \<or> op = mul \<or> op = multipliedBy \<or> op = div_N"
    and "op cfg h this inst = Inr (r, h')"
  shows "\<exists>x q. operand cfg h (precision (h ! this)) inst = Inr x \<and> r = length h
           \<and> h' = h @ [(fst (rebased (h ! this) x))\<lparr>val := q\<rparr>, snd (rebased (h ! this) x)]"
proof (cases "operand cfg h (precision (h ! this)) inst")
  case (Inl e)
  then show ?thesis
    using assms(3,4)
    by (auto simp add: plus_N_eq [OF assms(1,2)] minus_N_eq [OF assms(1,2)]
        mul_eq [OF assms(1,2)] div_N_eq [OF assms(1,2)] multipliedBy_def)
next
  case (Inr x)
  then show ?thesis
    using assms(3,4)
    by (auto simp add: plus_N_eq [OF assms(1,2)] minus_N_eq [OF assms(1,2)]
        mul_eq [OF assms(1,2)] div_N_eq [OF assms(1,2)] multipliedBy_def bindE_def
        split: prod.splits sum.splits)
qed

lemma compare_result:
  assumes "this < length h" and "valid h inst"
    and "compare_N rel cfg h this inst = Inr (r, h')"
  shows "\<exists>x. operand cfg h (precision (h ! this)) inst = Inr x
           \<and> h' = h @ [fst (rebased (h ! this) x), snd (rebased (h ! this) x)]"
  using assms(3)
  by (cases "operand cfg h (precision (h ! this)) inst")
    (auto simp add: compare_N_eq [OF assms(1,2)] split: prod.splits)

lemma sqrt_result:
  assumes "sqrt h this = Some (Inr (r, h'))"
  shows "\<exists>y. r = length h \<and> h' = h @ [(h ! this)\<lparr>val := y\<rparr>]"
proof -
  have "h ! this = (h ! this)\<lparr>val := val (h ! this)\<rparr>" by simp
  then have "\<exists>y. h ! this = (h ! this)\<lparr>val := y\<rparr>" by (rule exI)
  then show ?thesis
    using assms
    by (auto simp add: sqrt_def clone_def alloc_def Let_def set_val_def
        split: if_splits sum.splits option.splits)
qed

lemma comparison_result:
  assumes "this < length h" and "valid h inst"
    and "cmp = eq_N \<or> cmp = lt \<or> cmp = lte \<or> cmp = gt \<or> cmp = gte"
    and "cmp cfg h this inst = Inr (res, h')"
  shows "\<exists>x. operand cfg h (precision (h ! this)) inst = Inr x
           \<and> h' = h @ [fst (rebased (h ! this) x), snd (rebased (h ! this) x)]"
  using assms(3,4) compare_result [OF assms(1,2)]
  unfolding eq_N_def lt_def lte_def gt_def gte_def by blast

lemma sq_result:
  assumes "this < length h" and "sq cfg h this = Inr (r, h')"
  shows "\<exists>q. r = length h
           \<and> h' = h @ [(fst (rebased (h ! this) (h ! this)))\<lparr>val := q\<rparr>,
                        snd (rebased (h ! this) (h ! this))]"
proof -
  have v: "valid h (Ref this)" using assms(1) by simp
  from arith_result [OF assms(1) v, of mul cfg r h'] assms(2)
  show ?thesis by (simp add: sq_def)
qed

subsection \<open>Operations that cannot fail\<close>


lemma engine_pow10_within:
  assumes "0 \<le> e" and "e \<le> engine_max_exponent cfg"
  shows "engine_pow10 cfg e = Inr (10 ^ nat e)"
  using assms by (simp add: engine_pow10_def)












subsection \<open>Well-formedness is preserved\<close>

lemma big_pow_Inr: "big_pow a b = Inr c \<Longrightarrow> 0 \<le> b \<and> c = a ^ nat b"
  by (simp add: big_pow_def split: if_splits)

lemma bindE_Inr: "bindE m f = Inr y \<Longrightarrow> \<exists>x. m = Inr x \<and> f x = Inr y"
  by (cases m) simp_all

lemma construct_wellformed:
  assumes "construct cfg v dec prec isPrecise = Inr x"
  shows "wellformed x"
proof -
  obtain v1 d1 p1 where
    "bindE (big_pow 10 d1) (\<lambda>df.
       let p2 = (if p1 < d1 then d1 else p1) in
       bindE (big_pow 10 p2) (\<lambda>f.
       bindE (BigInt v1) (\<lambda>b.
       bindE (if isPrecise then Inr b else big_div (b * f) df) (\<lambda>x.
       Inr \<lparr> decimals = d1, decimalsFactor = df, val = x, precision = p2, factor = f \<rparr>)))) = Inr x"
    using assms unfolding construct_def Let_def by (auto split: prod.splits)
  then obtain df f b y where
    df: "big_pow 10 d1 = Inr df" and
    f: "big_pow 10 (if p1 < d1 then d1 else p1) = Inr f" and
    x: "x = \<lparr> decimals = d1, decimalsFactor = df, val = y,
              precision = (if p1 < d1 then d1 else p1), factor = f \<rparr>"
    unfolding Let_def by (auto dest!: bindE_Inr)
  show ?thesis
    using big_pow_Inr [OF df] big_pow_Inr [OF f] by (simp add: x wellformed_def)
qed

lemma wellformed_val_update [simp]: "wellformed (x\<lparr>val := v\<rparr>) = wellformed x"
  by (simp add: wellformed_def)

lemma rebased_wellformed:
  assumes "wellformed t" and "wellformed i"
  shows "wellformed (fst (rebased t i))" and "wellformed (snd (rebased t i))"
  using assms by (auto simp add: rebased_def wellformed_def)

lemma operand_wellformed:
  assumes "\<forall>x \<in> set h. wellformed x" and "valid h inst"
    and "operand cfg h p inst = Inr x"
  shows "wellformed x"
  using assms by (cases inst) (auto simp add: operand_def valid_def dest: construct_wellformed)

lemma new_N_wellformed:
  assumes "\<forall>x \<in> set h. wellformed x" and "valid h v"
    and "new_N cfg h v dec prec isPrecise = Inr (r, h')"
  shows "\<forall>x \<in> set h'. wellformed x"
  using assms
  by (cases v)
    (auto simp add: new_N_def alloc_def valid_def dest!: bindE_Inr dest: construct_wellformed)

subsection \<open>Where valueOf and toDecimal(0) agree\<close>

lemma rounders_builtin_exact:
  assumes "m \<noteq> CUSTOM"
  shows "rounders cfg m v 1 = Inr 0"
  using assms by (cases m) (simp_all add: big_rem_def Let_def)

lemma valueOf_eq_toDecimal_0:
  assumes "wellformed x" and "0 < precision x \<or> ROUNDING_MODE cfg \<noteq> CUSTOM"
    and "precision x \<le> engine_max_exponent cfg"
  shows "valueOf cfg x = toDecimal cfg x (Some (Integer 0))"
proof (cases "0 < precision x")
  case True
  then have "engine_pow10 cfg (precision x) = Inr (factor x)"
    using assms(1,3) by (simp add: engine_pow10_within wellformed_def)
  then show ?thesis
    using True by (simp add: valueOf_def toDecimal_def)
next
  case False
  then have p: "precision x = 0" and f: "factor x = 1" and m: "ROUNDING_MODE cfg \<noteq> CUSTOM"
    using assms by (auto simp add: wellformed_def)
  have d: "big_div (val x) 1 = Inr (val x)"
    by (simp add: big_div_def mult_sgn_abs)
  have e: "engine_pow10 cfg 0 = Inr 1"
    using assms(3) p by (simp add: engine_pow10_def)
  show ?thesis
    by (simp add: valueOf_def toDecimal_def p f d e rounder_def rounders_builtin_exact [OF m])
qed

subsection \<open>The loop of the square root ends\<close>

lemma sqrt_loop_returns:
  assumes "1 \<le> x" and "1 \<le> z"
  shows "\<exists>r. sqrt_loop x y z = Some (Inr r)"
  using assms(2)
proof (induction "nat y" arbitrary: y z rule: less_induct)
  case less
  show ?case
  proof (cases "z < y")
    case False
    then show ?thesis by (subst sqrt_loop.simps) simp
  next
    case True
    let ?q = "x div z"
    let ?z' = "(?q + z) div 2"
    have q: "big_div x z = Inr ?q"
      using assms(1) less.prems by (simp add: big_div_pos_pos)
    have q0: "0 \<le> ?q"
      using assms(1) less.prems by (simp add: pos_imp_zdiv_nonneg_iff)
    have q1: "z = 1 \<Longrightarrow> 1 \<le> ?q" using assms(1) by simp
    have z': "big_div (?q + z) 2 = Inr ?z'"
      using q0 less.prems by (simp add: big_div_pos_pos)
    have "2 \<le> ?q + z" using q0 q1 less.prems by (cases "z = 1") auto
    then have "1 \<le> ?z'" by simp
    moreover have "nat z < nat y" using True less.prems by simp
    ultimately obtain r where "sqrt_loop x z ?z' = Some (Inr r)"
      using less.hyps by blast
    then show ?thesis
      using True by (subst sqrt_loop.simps) (simp add: q z')
  qed
qed

section \<open>Rounding: the half-away-from-zero rule\<close>

text \<open>
  Claim C5. For every value \<open>v\<close> that is narrowed and every divisor \<open>d = 10^k\<close> with
  \<open>k > 0\<close>, the mode HALF_AWAY_FROM_ZERO returns normally with the carry \<open>+1\<close> when
  \<open>v > 0\<close> and twice the remainder of \<open>|v|\<close> below \<open>d\<close> is at least \<open>d\<close>, the carry
  \<open>-1\<close> when \<open>v < 0\<close> and twice that remainder is at least \<open>d\<close>, and the carry \<open>0\<close>
  otherwise.
\<close>

theorem half_away_from_zero_carry:
  assumes "0 < k" and "ROUNDING_MODE cfg = HALF_AWAY_FROM_ZERO"
  shows "rounder cfg v (10 ^ k) =
           Inr (if 0 < v \<and> 10 ^ k \<le> 2 * (\<bar>v\<bar> mod 10 ^ k) then 1
                else if v < 0 \<and> 10 ^ k \<le> 2 * (\<bar>v\<bar> mod 10 ^ k) then - 1
                else 0)"
proof -
  have pos: "(0::int) < 10 ^ k" by simp
  have z: "v = 0 \<Longrightarrow> \<not> (10::int) ^ k \<le> 2 * (\<bar>v\<bar> mod 10 ^ k)"
    by (simp add: not_le)
  show ?thesis
    unfolding rounder_def assms(2) rounders_HALF_AWAY_FROM_ZERO [OF pos]
    using z by (cases "v < 0") auto
qed

theorem half_away_from_zero_carry_witness:
  "rounder initial_config 12345 (10 ^ 1) = Inr 1
   \<and> rounder initial_config (- 12345) (10 ^ 1) = Inr (- 1)
   \<and> rounder initial_config 12344 (10 ^ 1) = Inr 0"
  using half_away_from_zero_carry [of 1 initial_config 12345]
    half_away_from_zero_carry [of 1 initial_config "- 12345"]
    half_away_from_zero_carry [of 1 initial_config 12344]
  by (simp add: initial_config_def)


section \<open>Multiplication and division across precisions\<close>

text \<open>
  Claim C1 (precision independence of \<open>plus\<close>, \<open>minus\<close>, \<open>mul\<close> and \<open>div\<close>). The
  code does not have this property for \<open>mul\<close> and \<open>div\<close>: both divide or multiply by
  \<open>this.factor\<close>, the factor of the receiver before rebasing, where the common factor
  is needed. With \<open>2\<close> and \<open>3\<close> built once as \<open>new N(2, 0, 1)\<close>, \<open>new N(3, 0, 2)\<close> and
  once as \<open>new N(2, 0, 2)\<close>, \<open>new N(3, 0, 1)\<close>, the product \<open>2 * 3\<close> is \<open>60.00\<close> in the
  first case and \<open>6.00\<close> in the second, and the quotient \<open>2 / 3\<close> is \<open>0.06\<close> in the
  first case and \<open>0.66\<close> in the second.
\<close>

theorem mul_div_depend_on_precision_order:
  "(let two_p1 = \<lparr>decimals = 0, decimalsFactor = 1, val = 20, precision = 1, factor = 10\<rparr>;
        three_p2 = \<lparr>decimals = 0, decimalsFactor = 1, val = 300, precision = 2, factor = 100\<rparr>;
        two_p2 = \<lparr>decimals = 0, decimalsFactor = 1, val = 200, precision = 2, factor = 100\<rparr>;
        three_p1 = \<lparr>decimals = 0, decimalsFactor = 1, val = 30, precision = 1, factor = 10\<rparr>;
        h = [two_p1, three_p2, two_p2, three_p1]
    in construct initial_config (Num 2) (Some 0) (Some 1) False = Inr two_p1
     \<and> construct initial_config (Num 3) (Some 0) (Some 2) False = Inr three_p2
     \<and> construct initial_config (Num 2) (Some 0) (Some 2) False = Inr two_p2
     \<and> construct initial_config (Num 3) (Some 0) (Some 1) False = Inr three_p1
     \<and> mul initial_config h 0 (Ref 1) = Inr (4, h @ [two_p2\<lparr>val := 6000\<rparr>, three_p2])
     \<and> mul initial_config h 2 (Ref 3) = Inr (4, h @ [two_p2\<lparr>val := 600\<rparr>, three_p2])
     \<and> div_N initial_config h 0 (Ref 1) = Inr (4, h @ [two_p2\<lparr>val := 6\<rparr>, three_p2])
     \<and> div_N initial_config h 2 (Ref 3) = Inr (4, h @ [two_p2\<lparr>val := 66\<rparr>, three_p2]))"
  by code_simp

section \<open>From a decimal string and back\<close>

text \<open>
  Claim C2 (round trip of a decimal string through the constructor and \<open>toString()\<close>).
  \<open>toString\<close> pads the digits of the bigint together with its sign, so a negative
  number whose digits are fewer than its decimals comes out with the sign after the
  point: \<open>new N('-0.05').toString()\<close> is \<open>'.-5'\<close>.
\<close>

theorem toString_negative_small_fraction:
  "bindE (construct initial_config (Str ''-0.05'') None None False)
     (\<lambda>x. toString initial_config x None) = Inr ''.-5''"
  by code_simp

section \<open>valueOf and toDecimal(0)\<close>

text \<open>
  Claim C7 (\<open>valueOf()\<close> returns what \<open>toDecimal(0)\<close> returns, under every rounding
  mode). \<open>valueOf\<close> adds the carry of the rounder always, \<open>toDecimal\<close> only when it
  narrows. At precision \<open>0\<close> and with a custom rounding function that returns \<open>1n\<close>,
  \<open>new N(5, 0, 0).valueOf()\<close> is \<open>6n\<close> and \<open>toDecimal(0)\<close> is \<open>5n\<close>. The two agree
  at every positive precision and under every other mode, on an instance whose factor the
  engine computes (\<open>valueOf_eq_toDecimal_0\<close>).
\<close>

theorem valueOf_differs_from_toDecimal_0:
  "(let cfg = initial_config\<lparr>ROUNDING_MODE := CUSTOM, ROUNDING_CUSTOM_FUNCTION := (\<lambda>v f. 1)\<rparr>;
        five = \<lparr>decimals = 0, decimalsFactor = 1, val = 5, precision = 0, factor = 1\<rparr>
    in construct cfg (Num 5) (Some 0) (Some 0) False = Inr five
     \<and> valueOf cfg five = Inr 6
     \<and> toDecimal cfg five (Some (Integer 0)) = Inr 5)"
  by code_simp

section \<open>The square root and its domain\<close>

text \<open>
  Claim C8 as stated (\<open>sqrt\<close> returns the value unchanged for magnitudes below 2) fails:
  the test of the code is on \<open>value * factor\<close>. For \<open>0.1\<close>, stored as the value \<open>1\<close> at
  precision \<open>1\<close>, \<open>sqrt\<close> returns an instance with the value \<open>3\<close>.
\<close>

theorem sqrt_changes_small_value:
  "construct initial_config (Num 1) (Some 1) (Some 1) False =
     Inr \<lparr>decimals = 1, decimalsFactor = 10, val = 1, precision = 1, factor = 10\<rparr>
   \<and> sqrt [\<lparr>decimals = 1, decimalsFactor = 10, val = 1, precision = 1, factor = 10\<rparr>] 0 =
     Some (Inr (1, [\<lparr>decimals = 1, decimalsFactor = 10, val = 1, precision = 1, factor = 10\<rparr>,
                    \<lparr>decimals = 1, decimalsFactor = 10, val = 3, precision = 1, factor = 10\<rparr>]))"
  by code_simp

text \<open>
  Claim C8, amended. For a well-formed receiver, \<open>sqrt\<close> throws when and only when the
  stored value is negative; for every other receiver the loop ends and \<open>sqrt\<close> returns
  a new instance that differs from the receiver in its value at most, leaving the store
  it found as it was; and when \<open>value * factor\<close> is below 2 the new instance is a copy
  of the receiver.
\<close>

theorem sqrt_domain:
  assumes "this < length h" and "wellformed (h ! this)"
  shows "(val (h ! this) < 0 \<longrightarrow>
            sqrt h this = Some (Inl (Thrown ''square root of negative numbers is not supported'')))
       \<and> (0 \<le> val (h ! this) \<longrightarrow>
            (\<exists>y. sqrt h this = Some (Inr (length h, h @ [(h ! this)\<lparr>val := y\<rparr>]))))
       \<and> (0 \<le> val (h ! this) \<and> val (h ! this) * factor (h ! this) < 2 \<longrightarrow>
            sqrt h this = Some (Inr (length h, h @ [h ! this])))"
proof -
  let ?x = "val (h ! this) * factor (h ! this)"
  have f: "0 < factor (h ! this)" using assms(2) by (simp add: wellformed_def)
  have neg: "?x < 0 \<longleftrightarrow> val (h ! this) < 0"
    using f by (simp add: mult_less_0_iff not_less [symmetric] less_imp_le)
  have sq: "sqrt h this =
      (if ?x < 0 then Some (Inl (Thrown ''square root of negative numbers is not supported''))
       else if ?x < 2 then Some (Inr (length h, h @ [h ! this]))
       else (case big_div ?x 2 of
               Inl e \<Rightarrow> Some (Inl e)
             | Inr q \<Rightarrow>
                 (case sqrt_loop ?x ?x (q + 1) of
                    None \<Rightarrow> None
                  | Some (Inl e) \<Rightarrow> Some (Inl e)
                  | Some (Inr y) \<Rightarrow> Some (Inr (length h, h @ [(h ! this)\<lparr>val := y\<rparr>])))))"
    by (simp add: sqrt_def clone_def alloc_def Let_def set_val_def
        split: sum.splits option.splits)
  have c1: "val (h ! this) < 0 \<longrightarrow>
      sqrt h this = Some (Inl (Thrown ''square root of negative numbers is not supported''))"
    using neg by (simp add: sq)
  have c3: "0 \<le> val (h ! this) \<and> ?x < 2 \<longrightarrow> sqrt h this = Some (Inr (length h, h @ [h ! this]))"
    using neg by (simp add: sq)
  have c2: "\<exists>y. sqrt h this = Some (Inr (length h, h @ [(h ! this)\<lparr>val := y\<rparr>]))"
    if nn: "0 \<le> val (h ! this)"
  proof (cases "?x < 2")
    case True
    then have "sqrt h this = Some (Inr (length h, h @ [(h ! this)\<lparr>val := val (h ! this)\<rparr>]))"
      using c3 nn by simp
    then show ?thesis by blast
  next
    case False
    then have x2: "2 \<le> ?x" by simp
    have d: "big_div ?x 2 = Inr (?x div 2)" using x2 by (simp add: big_div_pos_pos)
    have "1 \<le> ?x div 2 + 1" using x2 by simp
    from sqrt_loop_returns [OF _ this, of ?x ?x] x2
    obtain r where r: "sqrt_loop ?x ?x (?x div 2 + 1) = Some (Inr r)" by auto
    have "sqrt h this = Some (Inr (length h, h @ [(h ! this)\<lparr>val := r\<rparr>]))"
      using False neg nn by (simp add: sq d r)
    then show ?thesis by blast
  qed
  show ?thesis using c1 c2 c3 by blast
qed

theorem sqrt_domain_witness:
  "(let hundred = \<lparr>decimals = 2, decimalsFactor = 100, val = 10000, precision = 2, factor = 100\<rparr>;
        zero = hundred\<lparr>val := 0\<rparr>;
        minus_one = hundred\<lparr>val := - 100\<rparr>
    in wellformed hundred \<and> wellformed zero \<and> wellformed minus_one
     \<and> (\<exists>y. sqrt [hundred, zero, minus_one] 0 =
               Some (Inr (3, [hundred, zero, minus_one, hundred\<lparr>val := y\<rparr>])))
     \<and> sqrt [hundred, zero, minus_one] 1 = Some (Inr (3, [hundred, zero, minus_one, zero]))
     \<and> sqrt [hundred, zero, minus_one] 2 =
         Some (Inl (Thrown ''square root of negative numbers is not supported'')))"
  using sqrt_domain [of 0 "[\<lparr>decimals = 2, decimalsFactor = 100, val = 10000, precision = 2, factor = 100\<rparr>,
        \<lparr>decimals = 2, decimalsFactor = 100, val = 0, precision = 2, factor = 100\<rparr>,
        \<lparr>decimals = 2, decimalsFactor = 100, val = - 100, precision = 2, factor = 100\<rparr>]"]
    sqrt_domain [of 1 "[\<lparr>decimals = 2, decimalsFactor = 100, val = 10000, precision = 2, factor = 100\<rparr>,
        \<lparr>decimals = 2, decimalsFactor = 100, val = 0, precision = 2, factor = 100\<rparr>,
        \<lparr>decimals = 2, decimalsFactor = 100, val = - 100, precision = 2, factor = 100\<rparr>]"]
    sqrt_domain [of 2 "[\<lparr>decimals = 2, decimalsFactor = 100, val = 10000, precision = 2, factor = 100\<rparr>,
        \<lparr>decimals = 2, decimalsFactor = 100, val = 0, precision = 2, factor = 100\<rparr>,
        \<lparr>decimals = 2, decimalsFactor = 100, val = - 100, precision = 2, factor = 100\<rparr>]"]
  by (simp add: wellformed_def Let_def numeral_3_eq_3)

section \<open>Negative decimals at construction\<close>

text \<open>
  Claim C9 as stated (every construction with a negative \<open>decimals\<close> argument fails)
  does not hold for a string with a decimal point: the constructor replaces the argument
  by the number of characters after the point before it looks at it.
  \<open>new N('1.5', -3)\<close> is the instance \<open>1.5\<close>.
\<close>

theorem negative_decimals_accepted_with_decimal_point:
  "new_N initial_config [] (Val (Str ''1.5'')) (Some (- 3)) None False =
     Inr (0, [\<lparr>decimals = 1, decimalsFactor = 10, val = 15 * 10 ^ 79, precision = 80,
                factor = 10 ^ 80\<rparr>])"
  by code_simp

text \<open>
  Claim C9, amended. A construction from a number, a bigint or a string without a decimal
  point whose \<open>decimals\<close> argument is negative fails with the RangeError of
  \<open>10n ** BigInt(decimals)\<close> and produces no instance, whatever the other arguments are;
  for a string with a decimal point the \<open>decimals\<close> argument is ignored.
\<close>

theorem negative_decimals_rejected:
  assumes "d < 0"
  shows "((\<forall>s. v = Str s \<longrightarrow> CHR ''.'' \<notin> set s) \<longrightarrow>
            new_N cfg h (Val v) (Some d) prec isPrecise = Inl RangeError)
       \<and> (CHR ''.'' \<in> set s \<longrightarrow>
            new_N cfg h (Val (Str s)) (Some d) prec isPrecise =
            new_N cfg h (Val (Str s)) None prec isPrecise)"
  using assms by (cases v) (simp_all add: new_N_def construct_def Let_def)

theorem negative_decimals_rejected_witness:
  "new_N initial_config [] (Val (Num 5)) (Some (- 1)) None False = Inl RangeError
   \<and> new_N initial_config [] (Val (Str ''12'')) (Some (- 1)) (Some 3) True = Inl RangeError
   \<and> new_N initial_config [] (Val (Str ''1.5'')) (Some (- 3)) None False =
     new_N initial_config [] (Val (Str ''1.5'')) None None False"
  using negative_decimals_rejected [of "- 1" "Num 5" initial_config "[]" None False "''1.5''"]
    negative_decimals_rejected [of "- 1" "Str ''12''" initial_config "[]" "Some 3" True "''1.5''"]
    negative_decimals_rejected [of "- 3" "Num 5" initial_config "[]" None False "''1.5''"]
  by simp


section \<open>Addition undone by subtraction\<close>

text \<open>
  Claim C10. For all instances \<open>a\<close> and \<open>b\<close> of the store, whatever their precisions
  (and also when they are the same object), \<open>a.plus(b)\<close> returns an instance \<open>r\<close>,
  \<open>r.minus(b)\<close> returns an instance \<open>s\<close>, and \<open>s.eq(a)\<close> returns \<open>true\<close>.
\<close>

theorem plus_minus_eq:
  assumes "a < length h" and "b < length h"
  shows "\<exists>r h1 s h2 h3.
           plus_N cfg h a (Ref b) = Inr (r, h1)
         \<and> minus_N cfg h1 r (Ref b) = Inr (s, h2)
         \<and> eq_N cfg h2 s (Ref a) = Inr (True, h3)"
proof -
  let ?pa = "precision (h ! a)"
  let ?pb = "precision (h ! b)"
  let ?P = "max ?pa ?pb"
  let ?A = "fst (rebased (h ! a) (h ! b))"
  let ?B = "snd (rebased (h ! a) (h ! b))"
  define R where "R = ?A\<lparr>val := val ?A + val ?B\<rparr>"
  define h1 where "h1 = h @ [R, ?B]"
  have pR: "precision R = ?P"
    by (simp add: R_def rebased_fst)
  have vR: "val R = val (h ! a) * 10 ^ nat (?P - ?pa) + val (h ! b) * 10 ^ nat (?P - ?pb)"
    by (simp add: R_def rebased_fst rebased_snd)
  have p: "plus_N cfg h a (Ref b) = Inr (length h, h1)"
    using assms by (simp add: plus_N_eq h1_def R_def split: prod.splits)
  let ?A2 = "fst (rebased R (h ! b))"
  let ?B2 = "snd (rebased R (h ! b))"
  define S where "S = ?A2\<lparr>val := val ?A2 - val ?B2\<rparr>"
  define h2 where "h2 = h1 @ [S, ?B2]"
  have r1: "length h < length h1" by (simp add: h1_def)
  have b1: "valid h1 (Ref b)" using assms(2) by (simp add: h1_def)
  have hb: "h1 ! b = h ! b" using assms(2) by (simp add: h1_def nth_append)
  have hr: "h1 ! length h = R" by (simp add: h1_def nth_append)
  have m: "minus_N cfg h1 (length h) (Ref b) = Inr (length h1, h2)"
    by (simp add: minus_N_eq [OF r1 b1] hb hr h2_def S_def split: prod.splits)
  have pS: "precision S = ?P"
    by (simp add: S_def rebased_fst pR)
  have vS: "val S = val (h ! a) * 10 ^ nat (?P - ?pa)"
    by (simp add: S_def rebased_fst rebased_snd pR vR)
  have s2: "length h1 < length h2" by (simp add: h2_def)
  have a2: "valid h2 (Ref a)" using assms(1) by (simp add: h2_def h1_def)
  have ha: "h2 ! a = h ! a" using assms(1) by (simp add: h2_def h1_def nth_append)
  have hs: "h2 ! length h1 = S" by (simp add: h2_def nth_append)
  have v3: "val (fst (rebased S (h ! a))) = val (snd (rebased S (h ! a)))"
    by (simp add: rebased_fst rebased_snd pS vS)
  have e: "eq_N cfg h2 (length h1) (Ref a) =
             Inr (True, h2 @ [fst (rebased S (h ! a)), snd (rebased S (h ! a))])"
    unfolding eq_N_def compare_N_eq [OF s2 a2] using v3
    by (simp add: ha hs case_prod_beta)
  show ?thesis using p m e by blast
qed

theorem plus_minus_eq_witness:
  "(let hundred = \<lparr>decimals = 2, decimalsFactor = 100, val = 10000, precision = 2, factor = 100\<rparr>;
        b = \<lparr>decimals = 5, decimalsFactor = 100000, val = 2345000, precision = 5, factor = 100000\<rparr>
    in 0 < length [hundred, b] \<and> 1 < length [hundred, b]
     \<and> (\<exists>r h1 s h2 h3.
           plus_N initial_config [hundred, b] 0 (Ref 1) = Inr (r, h1)
         \<and> minus_N initial_config h1 r (Ref 1) = Inr (s, h2)
         \<and> eq_N initial_config h2 s (Ref 0) = Inr (True, h3)))"
  using plus_minus_eq [of 0 "[\<lparr>decimals = 2, decimalsFactor = 100, val = 10000, precision = 2, factor = 100\<rparr>,
      \<lparr>decimals = 5, decimalsFactor = 100000, val = 2345000, precision = 5, factor = 100000\<rparr>]" 1
      initial_config]
  by (simp add: Let_def)


section \<open>Operands are not mutated\<close>

text \<open>
  Claim C6. An arithmetic operation or a comparison \<open>a.op(b)\<close> on two instances of the
  store leaves every object the store held before the call as it was, so the five fields
  of \<open>a\<close> and of \<open>b\<close> are the same after the call; and an arithmetic operation returns
  a new object, at an address the store did not have, distinct from \<open>a\<close> and from \<open>b\<close>.
\<close>

theorem operands_not_mutated:
  assumes "a < length h" and "b < length h"
  shows "(\<forall>op \<in> {plus_N, minus_N, mul, multipliedBy, div_N}. \<forall>r h'.
            op cfg h a (Ref b) = Inr (r, h') \<longrightarrow>
              h' ! a = h ! a \<and> h' ! b = h ! b \<and> take (length h) h' = h
              \<and> r \<noteq> a \<and> r \<noteq> b \<and> length h \<le> r \<and> r < length h')
       \<and> (\<forall>r h'. sq cfg h a = Inr (r, h') \<longrightarrow>
              h' ! a = h ! a \<and> take (length h) h' = h \<and> r \<noteq> a \<and> length h \<le> r \<and> r < length h')
       \<and> (\<forall>cmp \<in> {eq_N, lt, lte, gt, gte}. \<forall>res h'.
            cmp cfg h a (Ref b) = Inr (res, h') \<longrightarrow>
              h' ! a = h ! a \<and> h' ! b = h ! b \<and> take (length h) h' = h)"
proof -
  have v: "valid h (Ref b)" using assms(2) by simp
  have frame: "h' ! a = h ! a \<and> h' ! b = h ! b \<and> take (length h) h' = h"
    if "h' = h @ xs" for h' xs
    using assms that by (simp add: nth_append)
  have ar: "h' ! a = h ! a \<and> h' ! b = h ! b \<and> take (length h) h' = h
              \<and> r \<noteq> a \<and> r \<noteq> b \<and> length h \<le> r \<and> r < length h'"
    if "op = plus_N \<or> op = minus_N \<or> op = mul \<or> op = multipliedBy \<or> op = div_N"
      and "op cfg h a (Ref b) = Inr (r, h')" for op r h'
  proof -
    from arith_result [OF assms(1) v that] obtain x q where
      r: "r = length h" and
      h': "h' = h @ [(fst (rebased (h ! a) x))\<lparr>val := q\<rparr>, snd (rebased (h ! a) x)]"
      by blast
    show ?thesis using frame [OF h'] assms r by (simp add: h')
  qed
  have s: "h' ! a = h ! a \<and> take (length h) h' = h \<and> r \<noteq> a \<and> length h \<le> r \<and> r < length h'"
    if "sq cfg h a = Inr (r, h')" for r h'
  proof -
    from sq_result [OF assms(1) that] obtain q where
      r: "r = length h" and
      h': "h' = h @ [(fst (rebased (h ! a) (h ! a)))\<lparr>val := q\<rparr>,
                     snd (rebased (h ! a) (h ! a))]"
      by blast
    show ?thesis using frame [OF h'] assms r by (simp add: h')
  qed
  have cm: "h' ! a = h ! a \<and> h' ! b = h ! b \<and> take (length h) h' = h"
    if "cmp = eq_N \<or> cmp = lt \<or> cmp = lte \<or> cmp = gt \<or> cmp = gte"
      and "cmp cfg h a (Ref b) = Inr (res, h')" for cmp res h'
  proof -
    from comparison_result [OF assms(1) v that] obtain x where
      h': "h' = h @ [fst (rebased (h ! a) x), snd (rebased (h ! a) x)]"
      by blast
    show ?thesis using frame [OF h'] .
  qed
  show ?thesis
  proof (intro conjI ballI allI impI)
  qed (use ar s cm in \<open>blast+\<close>)
qed

theorem operands_not_mutated_witness:
  "(let hundred = \<lparr>decimals = 2, decimalsFactor = 100, val = 10000, precision = 2, factor = 100\<rparr>;
        b = \<lparr>decimals = 5, decimalsFactor = 100000, val = 2345000, precision = 5, factor = 100000\<rparr>;
        h = [hundred, b]
    in 0 < length h \<and> 1 < length h
     \<and> (\<exists>r h'. div_N initial_config h 0 (Ref 1) = Inr (r, h')
           \<and> h' ! 0 = hundred \<and> h' ! 1 = b \<and> take (length h) h' = h \<and> r \<noteq> 0 \<and> r \<noteq> 1)
     \<and> (\<exists>r h'. sq initial_config h 1 = Inr (r, h') \<and> h' ! 1 = b \<and> r \<noteq> 1)
     \<and> (\<exists>h'. gt initial_config h 0 (Ref 1) = Inr (True, h')
           \<and> h' ! 0 = hundred \<and> h' ! 1 = b \<and> take (length h) h' = h))"
proof -
  let ?hundred = "\<lparr>decimals = 2, decimalsFactor = 100, val = 10000, precision = 2, factor = 100\<rparr>"
  let ?b = "\<lparr>decimals = 5, decimalsFactor = 100000, val = 2345000, precision = 5, factor = 100000\<rparr>"
  let ?h = "[?hundred, ?b]"
  have "case div_N initial_config ?h 0 (Ref 1) of Inl e \<Rightarrow> False | Inr x \<Rightarrow> True"
    by code_simp
  then have d: "\<exists>r h'. div_N initial_config ?h 0 (Ref 1) = Inr (r, h')"
    by (cases "div_N initial_config ?h 0 (Ref 1)") auto
  have "case sq initial_config ?h 1 of Inl e \<Rightarrow> False | Inr x \<Rightarrow> True"
    by code_simp
  then have s: "\<exists>r h'. sq initial_config ?h 1 = Inr (r, h')"
    by (cases "sq initial_config ?h 1") auto
  have "case gt initial_config ?h 0 (Ref 1) of Inl e \<Rightarrow> False | Inr x \<Rightarrow> fst x"
    by code_simp
  then have g: "\<exists>h'. gt initial_config ?h 0 (Ref 1) = Inr (True, h')"
    by (cases "gt initial_config ?h 0 (Ref 1)") auto
  have l: "0 < length ?h" "1 < length ?h" by simp_all
  note t = operands_not_mutated [OF l, of initial_config]
  note t1 = operands_not_mutated [OF l(2) l(2), of initial_config]
  from t d have "\<exists>r h'. div_N initial_config ?h 0 (Ref 1) = Inr (r, h')
           \<and> h' ! 0 = ?hundred \<and> h' ! 1 = ?b \<and> take (length ?h) h' = ?h \<and> r \<noteq> 0 \<and> r \<noteq> 1"
    by fastforce
  moreover from t1 s have "\<exists>r h'. sq initial_config ?h 1 = Inr (r, h') \<and> h' ! 1 = ?b \<and> r \<noteq> 1"
    by fastforce
  moreover from t g have "\<exists>h'. gt initial_config ?h 0 (Ref 1) = Inr (True, h')
           \<and> h' ! 0 = ?hundred \<and> h' ! 1 = ?b \<and> take (length ?h) h' = ?h"
    by fastforce
  ultimately show ?thesis using l by (simp add: Let_def)
qed


section \<open>Which operations can fail\<close>




section \<open>The representation invariant\<close>

text \<open>
  Claim C3. Every instance of a reachable store has \<open>factor = 10^precision\<close>,
  \<open>decimalsFactor = 10^decimals\<close> and \<open>precision \<ge> decimals\<close> (and \<open>decimals \<ge> 0\<close>):
  construction establishes the three conditions and every public operation preserves
  them, for the instances it creates and for those it finds.
\<close>

theorem representation_invariant:
  assumes "reachable h" and "x \<in> set h"
  shows "factor x = 10 ^ nat (precision x) \<and> decimalsFactor x = 10 ^ nat (decimals x)
       \<and> decimals x \<le> precision x \<and> 0 \<le> decimals x"
proof -
  have "\<forall>x \<in> set h. wellformed x"
    using assms(1)
  proof (induction rule: reachable.induct)
    case start
    show ?case by simp
  next
    case (construction h v cfg dec prec isPrecise r h')
    then show ?case using new_N_wellformed by blast
  next
    case (cloning h this r h')
    then show ?case by (auto simp add: clone_def alloc_def)
  next
    case (arithmetic h this inst op cfg r h')
    from arith_result [OF arithmetic(2,3,4,5)] obtain x q where
      x: "operand cfg h (precision (h ! this)) inst = Inr x" and
      h': "h' = h @ [(fst (rebased (h ! this) x))\<lparr>val := q\<rparr>, snd (rebased (h ! this) x)]"
      by blast
    have wt: "wellformed (h ! this)" using arithmetic(2,6) by simp
    have wx: "wellformed x" using operand_wellformed [OF arithmetic(6,3) x] .
    show ?case
      using arithmetic(6) rebased_wellformed [OF wt wx] by (simp add: h')
  next
    case (square h this cfg r h')
    from sq_result [OF square(2,3)] obtain q where
      h': "h' = h @ [(fst (rebased (h ! this) (h ! this)))\<lparr>val := q\<rparr>,
                     snd (rebased (h ! this) (h ! this))]"
      by blast
    have wt: "wellformed (h ! this)" using square(2,4) by simp
    show ?case
      using square(4) rebased_wellformed [OF wt wt] by (simp add: h')
  next
    case (square_root h this r h')
    from sqrt_result [OF square_root(3)] obtain y where
      h': "h' = h @ [(h ! this)\<lparr>val := y\<rparr>]" by blast
    have wt: "wellformed (h ! this)" using square_root(2,4) by simp
    show ?case using square_root(4) wt by (simp add: h')
  next
    case (comparison h this inst cmp cfg res h')
    from comparison_result [OF comparison(2,3,4,5)] obtain x where
      x: "operand cfg h (precision (h ! this)) inst = Inr x" and
      h': "h' = h @ [fst (rebased (h ! this) x), snd (rebased (h ! this) x)]"
      by blast
    have wt: "wellformed (h ! this)" using comparison(2,6) by simp
    have wx: "wellformed x" using operand_wellformed [OF comparison(6,3) x] .
    show ?case
      using comparison(6) rebased_wellformed [OF wt wx] by (simp add: h')
  qed
  then show ?thesis using assms(2) by (simp add: wellformed_def)
qed

theorem representation_invariant_witness:
  "(let a = \<lparr>decimals = 1, decimalsFactor = 10, val = 15, precision = 1, factor = 10\<rparr>;
        b = \<lparr>decimals = 0, decimalsFactor = 1, val = 300, precision = 2, factor = 100\<rparr>;
        c = \<lparr>decimals = 1, decimalsFactor = 10, val = 450, precision = 2, factor = 100\<rparr>
    in reachable [a, b, c, b] \<and> c \<in> set [a, b, c, b]
     \<and> factor c = 10 ^ nat (precision c) \<and> decimalsFactor c = 10 ^ nat (decimals c)
     \<and> decimals c \<le> precision c \<and> 0 \<le> decimals c)"
proof -
  let ?a = "\<lparr>decimals = 1, decimalsFactor = 10, val = 15, precision = 1, factor = 10\<rparr>"
  let ?b = "\<lparr>decimals = 0, decimalsFactor = 1, val = 300, precision = 2, factor = 100\<rparr>"
  let ?c = "\<lparr>decimals = 1, decimalsFactor = 10, val = 450, precision = 2, factor = 100\<rparr>"
  have n1: "new_N initial_config [] (Val (Str ''1.5'')) None (Some 0) False = Inr (0, [?a])"
    by code_simp
  have n2: "new_N initial_config [?a] (Val (Num 3)) (Some 0) (Some 2) False = Inr (1, [?a, ?b])"
    by code_simp
  have p: "plus_N initial_config [?a, ?b] 0 (Ref 1) = Inr (2, [?a, ?b, ?c, ?b])"
    by code_simp
  have r1: "reachable [?a]"
    by (rule reachable.construction [OF reachable.start _ n1]) (simp add: valid_def)
  have r2: "reachable [?a, ?b]"
    by (rule reachable.construction [OF r1 _ n2]) (simp add: valid_def)
  have r3: "reachable [?a, ?b, ?c, ?b]"
    using reachable.arithmetic [of "[?a, ?b]" 0 "Ref 1" plus_N initial_config 2 "[?a, ?b, ?c, ?b]"]
      r2 p
    by simp
  have m: "?c \<in> set [?a, ?b, ?c, ?b]" by simp
  show ?thesis
    using representation_invariant [OF r3 m] r3 by (simp add: Let_def)
qed

end
